theory Spec2Isabelle
  imports Complex_Main "HOL-Library.Sublist"
begin

section \<open>Python values\<close>

text \<open>
  A Python \<^verbatim>\<open>str\<close> is a sequence of Unicode code points and \<^verbatim>\<open>len\<close> counts them, so a
  text is a list of code points. String literals of the source are written \<open>str ''...''\<close>;
  the one non-ASCII character of the source, the em dash U+2014 of the clause delimiters,
  is the code point 8212.
\<close>

type_synonym pystr = "nat list"

definition str :: "string \<Rightarrow> pystr" where
  "str cs = map of_char cs"

datatype py_error = ZeroDivisionError | ValueError | IndexError | RuntimeError

text \<open>
  The configuration class \<^verbatim>\<open>app.config.Config\<close> is read by the functions below; its values
  are the fields of this record.
\<close>

record config =
  LONG_TEXT_CHUNK_SIZE :: int
  MAX_TOTAL_LENGTH :: int
  LONG_TEXT_CHUNKING_STRATEGY :: pystr
  long_text_min_length :: int
  long_text_max_length :: int

section \<open>estimate\_processing\_time\<close>

text \<open>
  \<^verbatim>\<open>int(x)\<close> of a float truncates towards zero. The float \<^verbatim>\<open>avg_chars_per_second\<close> is a
  rational number here and the arithmetic on it is exact; \<^verbatim>\<open>/\<close> by zero and \<^verbatim>\<open>//\<close> by zero
  raise \<^verbatim>\<open>ZeroDivisionError\<close>. \<^verbatim>\<open>chunk_size or d\<close> is \<^verbatim>\<open>d\<close> when \<^verbatim>\<open>chunk_size\<close> is
  \<^verbatim>\<open>None\<close> or 0.
\<close>

definition py_int :: "rat \<Rightarrow> int" where
  "py_int x = (if 0 \<le> x then \<lfloor>x\<rfloor> else \<lceil>x\<rceil>)"

definition estimate_processing_time :: "config \<Rightarrow> int \<Rightarrow> rat \<Rightarrow> int option \<Rightarrow> py_error + int" where
  "estimate_processing_time cfg text_length avg_chars_per_second chunk_size =
     (if avg_chars_per_second = 0 then Inl ZeroDivisionError
      else
        let base_time = of_int text_length / avg_chars_per_second;
            chunk_size_or = (case chunk_size of
                 None \<Rightarrow> LONG_TEXT_CHUNK_SIZE cfg
               | Some c \<Rightarrow> if c = 0 then LONG_TEXT_CHUNK_SIZE cfg else c);
            effective_chunk_size =
              (if chunk_size_or \<le> 0 then LONG_TEXT_CHUNK_SIZE cfg else chunk_size_or)
        in if effective_chunk_size = 0 then Inl ZeroDivisionError
           else
             let num_chunks =
                   max 1 ((text_length + effective_chunk_size - 1) div effective_chunk_size);
                 overhead = 5 + num_chunks * 2 + 10
             in Inr (py_int (base_time + of_int overhead)))"

section \<open>String operations\<close>

text \<open>
  \<^verbatim>\<open>str.isspace\<close>, \<^verbatim>\<open>str.strip()\<close>, \<^verbatim>\<open>str.split()\<close> and the regular-expression class
  \<^verbatim>\<open>\s\<close> all use the same test: the code points that Unicode classes as whitespace.
\<close>

definition isspace :: "nat \<Rightarrow> bool" where
  "isspace c \<longleftrightarrow>
     (9 \<le> c \<and> c \<le> 13) \<or> (28 \<le> c \<and> c \<le> 32) \<or> c = 133 \<or> c = 160 \<or> c = 5760
     \<or> (8192 \<le> c \<and> c \<le> 8202) \<or> c = 8232 \<or> c = 8233 \<or> c = 8239 \<or> c = 8287
     \<or> c = 12288"

definition strip :: "pystr \<Rightarrow> pystr" where
  "strip s = rev (dropWhile isspace (rev (dropWhile isspace s)))"

text \<open>
  \<^verbatim>\<open>s.split()\<close>: the maximal runs of non-whitespace characters. \<open>cur\<close> is the word read so
  far.
\<close>

fun split_ws_from :: "pystr \<Rightarrow> pystr \<Rightarrow> pystr list" where
  "split_ws_from cur [] = (if cur = [] then [] else [cur])"
| "split_ws_from cur (c # cs) =
     (if isspace c then (if cur = [] then split_ws_from [] cs else cur # split_ws_from [] cs)
      else split_ws_from (cur @ [c]) cs)"

definition split_ws :: "pystr \<Rightarrow> pystr list" where
  "split_ws s = split_ws_from [] s"

text \<open>\<^verbatim>\<open>str(n)\<close> and \<^verbatim>\<open>format\<close> of an integer: its decimal digits.\<close>

fun dec_nat :: "nat \<Rightarrow> pystr" where
  "dec_nat n = (if n < 10 then [48 + n] else dec_nat (n div 10) @ [48 + n mod 10])"

declare dec_nat.simps [simp del]

definition dec_int :: "int \<Rightarrow> pystr" where
  "dec_int i = (if i < 0 then 45 # dec_nat (nat (- i)) else dec_nat (nat i))"

section \<open>validate\_long\_text\_input\<close>

text \<open>
  The repetition test \<^verbatim>\<open>len(set(words)) < len(words) * 0.1\<close> compares an integer with a
  float product. For every word count \<open>n\<close> below \<open>2^50\<close> the double \<^verbatim>\<open>n * 0.1\<close> is \<open>n / 10\<close>
  itself when 10 divides \<open>n\<close>, and lies within \<open>2^-2\<close> of \<open>n / 10\<close> (which is then at least
  \<open>1/10\<close> away from every integer) otherwise, so the test is \<open>10 * k < n\<close> on integers.
\<close>

definition validate_long_text_input :: "config \<Rightarrow> pystr \<Rightarrow> bool \<times> pystr" where
  "validate_long_text_input cfg text =
     (if text = [] \<or> strip text = [] then (False, str ''Input text cannot be empty'')
      else
        let text_length = int (length (strip text));
            min_length = long_text_min_length cfg;
            max_length = long_text_max_length cfg
        in if text_length < min_length then
             (False, str ''Text must be at least '' @ dec_int min_length
                @ str '' characters for long-text processing (received ''
                @ dec_int text_length @ str '' characters)'')
           else if text_length > max_length then
             (False, str ''Text is too long ('' @ dec_int text_length
                @ str '' characters). Maximum allowed: '' @ dec_int max_length)
           else
             let words = split_ws text
             in if 10 * length (remdups words) < length words then
                  (False, str ''Text appears to be excessively repetitive'')
                else (True, []))"

section \<open>concatenate\_audio\_chunks\<close>

text \<open>
  An audio tensor has two dimensions, channels and samples: a list of rows of samples.
  \<^verbatim>\<open>torch.cat(ts, dim=1)\<close> joins the tensors row by row and raises \<^verbatim>\<open>RuntimeError\<close> when their
  numbers of rows differ; \<^verbatim>\<open>torch.zeros(1, n)\<close> is one row of \<open>n\<close> zeros and raises for a
  negative \<open>n\<close>. \<^verbatim>\<open>int(0.1 * sample_rate)\<close> is the quotient \<open>sample_rate / 10\<close> truncated
  towards zero (the double product is exact enough for that, as for the repetition test
  above). \<^verbatim>\<open>audio_chunks[0]\<close> of an empty list raises \<^verbatim>\<open>IndexError\<close>. Devices, gradient
  tracking and garbage collection have no effect on the value.
\<close>

type_synonym tensor = "real list list"

definition torch_zeros_1 :: "int \<Rightarrow> py_error + tensor" where
  "torch_zeros_1 n = (if n < 0 then Inl RuntimeError else Inr [replicate (nat n) 0])"

definition torch_cat_dim1 :: "tensor list \<Rightarrow> py_error + tensor" where
  "torch_cat_dim1 ts =
     (case ts of
        [] \<Rightarrow> Inl RuntimeError
      | t # _ \<Rightarrow>
          if list_all (\<lambda>u. length u = length t) ts
          then Inr (map (\<lambda>i. concat (map (\<lambda>u. u ! i) ts)) [0..<length t])
          else Inl RuntimeError)"

fun concatenate_loop :: "tensor \<Rightarrow> tensor \<Rightarrow> tensor list \<Rightarrow> py_error + tensor" where
  "concatenate_loop silence concatenated [] = Inr concatenated"
| "concatenate_loop silence concatenated (chunk # chunks) =
     (case torch_cat_dim1 [concatenated, silence, chunk] of
        Inl e \<Rightarrow> Inl e
      | Inr t \<Rightarrow> concatenate_loop silence t chunks)"

definition concatenate_audio_chunks :: "tensor list \<Rightarrow> int \<Rightarrow> py_error + tensor" where
  "concatenate_audio_chunks audio_chunks sample_rate =
     (case audio_chunks of
        [c] \<Rightarrow> Inr c
      | [] \<Rightarrow> Inl IndexError
      | c # chunks \<Rightarrow>
          (let silence_samples = py_int (of_int sample_rate / 10)
           in case torch_zeros_1 silence_samples of
                Inl e \<Rightarrow> Inl e
              | Inr silence \<Rightarrow> concatenate_loop silence c chunks))"

section \<open>Slices, ranges and searches\<close>

text \<open>
  Python's slice bounds: a negative bound counts from the end, and every bound is clipped to
  the length. \<open>slice_to i s\<close> is \<^verbatim>\<open>s[:i]\<close>, \<open>slice_from i s\<close> is \<^verbatim>\<open>s[i:]\<close>.
\<close>

definition slice_index :: "nat \<Rightarrow> int \<Rightarrow> nat" where
  "slice_index n i = (if i < 0 then nat (int n + i) else min (nat i) n)"

definition slice_to :: "int \<Rightarrow> 'a list \<Rightarrow> 'a list" where
  "slice_to i s = take (slice_index (length s) i) s"

definition slice_from :: "int \<Rightarrow> 'a list \<Rightarrow> 'a list" where
  "slice_from i s = drop (slice_index (length s) i) s"

text \<open>
  \<^verbatim>\<open>range(0, n, step)\<close> raises \<^verbatim>\<open>ValueError\<close> for a zero step and is empty for a negative one
  (\<open>n\<close> is a length).
\<close>

definition py_range :: "nat \<Rightarrow> int \<Rightarrow> py_error + nat list" where
  "py_range n step =
     (if step = 0 then Inl ValueError
      else if step < 0 then Inr []
      else Inr (map (\<lambda>k. k * nat step) [0..<(n + nat step - 1) div nat step]))"

text \<open>
  \<^verbatim>\<open>text.find(sub, pos)\<close>: the least index \<open>\<ge> pos\<close> at which \<open>sub\<close> occurs, \<open>None\<close> for -1.
  \<open>find_in sub s i\<close> searches the suffix \<open>s\<close> that starts at index \<open>i\<close>.
\<close>

fun find_in :: "pystr \<Rightarrow> pystr \<Rightarrow> nat \<Rightarrow> nat option" where
  "find_in sub [] i = (if sub = [] then Some i else None)"
| "find_in sub (c # cs) i = (if prefix sub (c # cs) then Some i else find_in sub cs (Suc i))"

definition py_find :: "pystr \<Rightarrow> pystr \<Rightarrow> nat \<Rightarrow> nat option" where
  "py_find text sub pos = (if length text < pos then None else find_in sub (drop pos text) pos)"

text \<open>The greatest index at which \<open>c\<close> occurs; \<^verbatim>\<open>text.rfind(c, 0, e)\<close> is \<open>last_index c\<close> of
  \<^verbatim>\<open>text[:e]\<close>.\<close>

fun last_index :: "nat \<Rightarrow> pystr \<Rightarrow> nat option" where
  "last_index c [] = None"
| "last_index c (x # xs) =
     (case last_index c xs of
        Some i \<Rightarrow> Some (Suc i)
      | None \<Rightarrow> if x = c then Some 0 else None)"

definition py_rfind :: "pystr \<Rightarrow> nat \<Rightarrow> int \<Rightarrow> nat option" where
  "py_rfind text c e = last_index c (slice_to e text)"

text \<open>
  The pattern \<^verbatim>\<open>\n\s*\n\<close>. A match starts at a line feed and, \<^verbatim>\<open>\s*\<close> being greedy, ends after
  the last line feed of the whitespace that follows. \<open>paragraph_break s\<close> is \<open>Some k\<close> when a
  match of length \<open>k + 2\<close> starts at the head of \<open>s\<close>. \<^verbatim>\<open>re.finditer\<close> and \<^verbatim>\<open>re.split\<close> take
  the leftmost matches, each search starting where the last match ended.
\<close>

definition paragraph_break :: "pystr \<Rightarrow> nat option" where
  "paragraph_break s =
     (case s of
        [] \<Rightarrow> None
      | c # cs \<Rightarrow> if c = 10 then last_index 10 (takeWhile isspace cs) else None)"

fun paragraph_matches :: "nat \<Rightarrow> pystr \<Rightarrow> (nat \<times> nat) list" where
  "paragraph_matches i [] = []"
| "paragraph_matches i (c # cs) =
     (case paragraph_break (c # cs) of
        Some k \<Rightarrow> (i, i + k + 2) # paragraph_matches (i + k + 2) (drop (Suc k) cs)
      | None \<Rightarrow> paragraph_matches (Suc i) cs)"

fun split_paragraphs_from :: "pystr \<Rightarrow> pystr \<Rightarrow> pystr list" where
  "split_paragraphs_from cur [] = [cur]"
| "split_paragraphs_from cur (c # cs) =
     (case paragraph_break (c # cs) of
        Some k \<Rightarrow> cur # split_paragraphs_from [] (drop (Suc k) cs)
      | None \<Rightarrow> split_paragraphs_from (cur @ [c]) cs)"

definition re_split_paragraphs :: "pystr \<Rightarrow> pystr list" where
  "re_split_paragraphs text = split_paragraphs_from [] text"


section \<open>The split-point finder\<close>

text \<open>
  The thresholds \<^verbatim>\<open>best_split > max_length * 0.5\<close>, \<^verbatim>\<open>* 0.4\<close> and \<^verbatim>\<open>* 0.3\<close> compare an integer
  with a float product; as for the repetition test they are \<open>2 * b > m\<close>, \<open>5 * b > 2 * m\<close>
  and \<open>10 * b > 3 * m\<close> on integers. \<^verbatim>\<open>if best_split and ...\<close> also needs \<open>best_split\<close> to be
  neither \<^verbatim>\<open>None\<close> nor 0.
\<close>

fun last_paragraph_break :: "int \<Rightarrow> (nat \<times> nat) list \<Rightarrow> nat option \<Rightarrow> nat option" where
  "last_paragraph_break max_length [] best_split = best_split"
| "last_paragraph_break max_length (m # matches) best_split =
     (let split_pos = snd m
      in if int split_pos \<le> max_length
         then last_paragraph_break max_length matches (Some split_pos)
         else best_split)"

definition cut_at :: "pystr \<Rightarrow> nat \<Rightarrow> int \<Rightarrow> pystr \<times> pystr" where
  "cut_at text best_split overlap_chars =
     (strip (slice_to (int best_split) text),
      strip (slice_from (max 0 (int best_split - overlap_chars)) text))"

definition try_split_at_paragraphs :: "pystr \<Rightarrow> int \<Rightarrow> int \<Rightarrow> (pystr \<times> pystr) option" where
  "try_split_at_paragraphs text max_length overlap_chars =
     (let matches = paragraph_matches 0 text
      in if matches = [] then None
         else case last_paragraph_break max_length matches None of
                None \<Rightarrow> None
              | Some best_split \<Rightarrow>
                  if best_split \<noteq> 0 \<and> 2 * int best_split > max_length
                  then Some (cut_at text best_split overlap_chars)
                  else None)"

lemma find_in_ge: "find_in sub s i = Some j \<Longrightarrow> i \<le> j"
  by (induction s arbitrary: i) (auto split: if_splits dest: Suc_leD)

lemma py_find_ge: "py_find text sub pos = Some found \<Longrightarrow> pos \<le> found"
  by (auto simp: py_find_def split: if_splits dest: find_in_ge)

text \<open>
  The inner \<^verbatim>\<open>while\<close> loop of the sentence and clause tiers, for one delimiter: it visits the
  occurrences of the delimiter from the left and overwrites \<open>best_split\<close> with the end of
  each one that ends at or before \<open>max_length\<close>.
\<close>

function scan_delimiter :: "pystr \<Rightarrow> pystr \<Rightarrow> int \<Rightarrow> nat \<Rightarrow> nat option \<Rightarrow> nat option" where
  "scan_delimiter text delimiter max_length pos best_split =
     (if pos < length text then
        (case py_find text delimiter pos of
           None \<Rightarrow> best_split
         | Some found \<Rightarrow>
             let split_pos = found + length delimiter
             in if int split_pos \<le> max_length
                then scan_delimiter text delimiter max_length (found + 1) (Some split_pos)
                else best_split)
      else best_split)"
  by pat_completeness auto
termination
  by (relation "measure (\<lambda>(text, delimiter, max_length, pos, best_split). length text - pos)")
    (auto dest: py_find_ge)

declare scan_delimiter.simps [simp del]

definition scan_delimiters :: "pystr \<Rightarrow> pystr list \<Rightarrow> int \<Rightarrow> nat option" where
  "scan_delimiters text delimiters max_length =
     fold (\<lambda>delimiter best_split. scan_delimiter text delimiter max_length 0 best_split)
       delimiters None"

definition sentence_endings :: "pystr list" where
  "sentence_endings =
     [str ''. '', str ''! '', str ''? '', [46, 10], [33, 10], [63, 10],
      [46, 34], [33, 34], [63, 34], [46, 39], [33, 39], [63, 39]]"

definition try_split_at_sentences :: "pystr \<Rightarrow> int \<Rightarrow> int \<Rightarrow> (pystr \<times> pystr) option" where
  "try_split_at_sentences text max_length overlap_chars =
     (case scan_delimiters text sentence_endings max_length of
        None \<Rightarrow> None
      | Some best_split \<Rightarrow>
          if best_split \<noteq> 0 \<and> 5 * int best_split > 2 * max_length
          then Some (cut_at text best_split overlap_chars)
          else None)"

definition clause_delimiters :: "pystr list" where
  "clause_delimiters =
     [str '', '', str ''; '', str '': '', str '' - '', [32, 8212, 32], str '' and '',
      str '' or '', str '' but '', str '' while '', str '' when '']"

definition try_split_at_clauses :: "pystr \<Rightarrow> int \<Rightarrow> int \<Rightarrow> (pystr \<times> pystr) option" where
  "try_split_at_clauses text max_length overlap_chars =
     (case scan_delimiters text clause_delimiters max_length of
        None \<Rightarrow> None
      | Some best_split \<Rightarrow>
          if best_split \<noteq> 0 \<and> 10 * int best_split > 3 * max_length
          then Some (cut_at text best_split overlap_chars)
          else None)"

definition split_at_words :: "pystr \<Rightarrow> int \<Rightarrow> int \<Rightarrow> pystr \<times> pystr" where
  "split_at_words text max_length overlap_chars =
     (if int (length text) \<le> max_length then (text, [])
      else
        let split_pos = (case py_rfind text 32 max_length of
                           None \<Rightarrow> max_length
                         | Some p \<Rightarrow> int p)
        in (strip (slice_to split_pos text),
            strip (slice_from (max 0 (split_pos - overlap_chars)) text)))"

definition find_best_split_point :: "pystr \<Rightarrow> int \<Rightarrow> int \<Rightarrow> pystr \<times> pystr" where
  "find_best_split_point text max_length overlap_chars =
     (if int (length text) \<le> max_length then (text, [])
      else case try_split_at_paragraphs text max_length overlap_chars of
             Some split_result \<Rightarrow> split_result
           | None \<Rightarrow>
               (case try_split_at_sentences text max_length overlap_chars of
                  Some split_result \<Rightarrow> split_result
                | None \<Rightarrow>
                    (case try_split_at_clauses text max_length overlap_chars of
                       Some split_result \<Rightarrow> split_result
                     | None \<Rightarrow> split_at_words text max_length overlap_chars)))"

section \<open>The strategies of chunk\_text\<close>

text \<open>
  The \<^verbatim>\<open>while remaining_text\<close> loop of \<^verbatim>\<open>_chunk_hierarchical\<close>, with the list \<open>chunks\<close> built so
  far. The loop need not end (it does not for \<open>max_length \<le> 0\<close>): \<open>None\<close> is "does not return".
\<close>

partial_function (option) hierarchical_loop :: "int \<Rightarrow> pystr \<Rightarrow> pystr list \<Rightarrow> pystr list option" where
  "hierarchical_loop max_length remaining_text chunks =
     (if remaining_text = [] then Some chunks
      else if int (length remaining_text) \<le> max_length then Some (chunks @ [remaining_text])
      else
        (case find_best_split_point remaining_text max_length 0 of
           (chunk, remaining) \<Rightarrow>
             if chunk = [] then
               hierarchical_loop max_length (strip (slice_from max_length remaining_text))
                 (chunks @ [strip (slice_to max_length remaining_text)])
             else hierarchical_loop max_length remaining (chunks @ [chunk])))"

declare hierarchical_loop.simps [code]

definition chunk_hierarchical :: "pystr \<Rightarrow> int \<Rightarrow> pystr list option" where
  "chunk_hierarchical text max_length =
     map_option (filter (\<lambda>chunk. chunk \<noteq> [])) (hierarchical_loop max_length (strip text) [])"


text \<open>\<^verbatim>\<open>sep.join(parts)\<close>.\<close>

fun join :: "pystr \<Rightarrow> pystr list \<Rightarrow> pystr" where
  "join sep [] = []"
| "join sep [x] = x"
| "join sep (x # y # ys) = x @ sep @ join sep (y # ys)"

text \<open>
  The \<^verbatim>\<open>for paragraph in paragraphs\<close> loop of \<^verbatim>\<open>_chunk_by_paragraphs\<close> and the statement after
  it; \<open>current\<close> is \<^verbatim>\<open>None\<close> before the first paragraph.
\<close>

fun chunk_by_paragraphs_loop ::
  "int \<Rightarrow> pystr list \<Rightarrow> pystr option \<Rightarrow> pystr list \<Rightarrow> pystr list option" where
  "chunk_by_paragraphs_loop max_length [] current chunks =
     (case current of
        None \<Rightarrow> Some chunks
      | Some cur \<Rightarrow>
          if cur = [] then Some chunks
          else map_option (\<lambda>cs. chunks @ cs) (chunk_hierarchical cur max_length))"
| "chunk_by_paragraphs_loop max_length (paragraph # paragraphs) current chunks =
     (case current of
        None \<Rightarrow> chunk_by_paragraphs_loop max_length paragraphs (Some paragraph) chunks
      | Some cur \<Rightarrow>
          let candidate = cur @ [10, 10] @ paragraph
          in if int (length candidate) \<le> max_length
             then chunk_by_paragraphs_loop max_length paragraphs (Some candidate) chunks
             else (case chunk_hierarchical cur max_length of
                     None \<Rightarrow> None
                   | Some cs \<Rightarrow>
                       chunk_by_paragraphs_loop max_length paragraphs (Some paragraph)
                         (chunks @ cs)))"

definition chunk_by_paragraphs :: "pystr \<Rightarrow> int \<Rightarrow> pystr list option" where
  "chunk_by_paragraphs text max_length =
     (let paragraphs = map strip (filter (\<lambda>segment. strip segment \<noteq> [])
                          (re_split_paragraphs text))
      in if paragraphs = [] then chunk_hierarchical text max_length
         else chunk_by_paragraphs_loop max_length paragraphs None [])"

text \<open>The first loop of \<^verbatim>\<open>_chunk_by_words\<close> with the statement after it, and its second loop.\<close>

fun chunk_by_words_loop ::
  "int \<Rightarrow> pystr list \<Rightarrow> pystr list \<Rightarrow> int \<Rightarrow> pystr list \<Rightarrow> pystr list" where
  "chunk_by_words_loop max_length [] current_words current_length chunks =
     (if current_words \<noteq> [] then
        (let chunk = strip (join [32] current_words)
         in if chunk \<noteq> [] then chunks @ [chunk] else chunks)
      else chunks)"
| "chunk_by_words_loop max_length (word # words) current_words current_length chunks =
     (let additional_length =
            (if current_words = [] then int (length word) else int (length word) + 1)
      in if current_words \<noteq> [] \<and> current_length + additional_length > max_length then
           (let chunk = strip (join [32] current_words)
            in chunk_by_words_loop max_length words [word] (int (length word))
                 (if chunk \<noteq> [] then chunks @ [chunk] else chunks))
         else chunk_by_words_loop max_length words (current_words @ [word])
                (current_length + additional_length) chunks)"

fun refine_chunks :: "int \<Rightarrow> pystr list \<Rightarrow> pystr list \<Rightarrow> pystr list option" where
  "refine_chunks max_length [] refined_chunks = Some refined_chunks"
| "refine_chunks max_length (chunk # chunks) refined_chunks =
     (if int (length chunk) > max_length then
        (case chunk_hierarchical chunk max_length of
           None \<Rightarrow> None
         | Some cs \<Rightarrow> refine_chunks max_length chunks (refined_chunks @ cs))
      else refine_chunks max_length chunks (refined_chunks @ [chunk]))"

definition chunk_by_words :: "pystr \<Rightarrow> int \<Rightarrow> pystr list option" where
  "chunk_by_words text max_length =
     (let words = split_ws text
      in if words = [] then Some []
         else refine_chunks max_length (chunk_by_words_loop max_length words [] 0 []) [])"

section \<open>chunk\_text\<close>

text \<open>
  \<^verbatim>\<open>str.lower()\<close>. It is written out for the code points below 256, for U+0130 and for the
  Kelvin sign U+212A, which are the only code points outside ASCII whose lower-case form
  contains an ASCII character; every other code point is left as it is, which decides the
  comparisons of \<^verbatim>\<open>chunk_text\<close> with ASCII words as Python does.
\<close>

definition lower_char :: "nat \<Rightarrow> pystr" where
  "lower_char c =
     (if (65 \<le> c \<and> c \<le> 90) \<or> (192 \<le> c \<and> c \<le> 222 \<and> c \<noteq> 215) then [c + 32]
      else if c = 304 then [105, 775]
      else if c = 8490 then [107]
      else [c])"

definition py_lower :: "pystr \<Rightarrow> pystr" where
  "py_lower s = concat (map lower_char s)"

text \<open>\<^verbatim>\<open>s[a:b]\<close>.\<close>

definition slice_between :: "int \<Rightarrow> int \<Rightarrow> 'a list \<Rightarrow> 'a list" where
  "slice_between a b s = drop (slice_index (length s) a) (take (slice_index (length s) b) s)"

text \<open>
  The effective limit of \<^verbatim>\<open>chunk_text\<close> (its first two statements).
\<close>

definition effective_max :: "config \<Rightarrow> int option \<Rightarrow> int" where
  "effective_max cfg max_length =
     (let max_length = (case max_length of
                          None \<Rightarrow> LONG_TEXT_CHUNK_SIZE cfg
                        | Some m \<Rightarrow> if m \<le> 0 then LONG_TEXT_CHUNK_SIZE cfg else m);
          effective_max = min max_length (MAX_TOTAL_LENGTH cfg - 100)
      in if effective_max \<le> 0 then max_length else effective_max)"

text \<open>
  The result of \<^verbatim>\<open>chunk_text\<close> is \<open>None\<close> when the call does not return, \<open>Some (Inl e)\<close> when it
  raises \<open>e\<close> and \<open>Some (Inr chunks)\<close> when it returns \<open>chunks\<close>. \<^verbatim>\<open>strategy\<close> may be \<^verbatim>\<open>None\<close>.
\<close>

definition chunk_text ::
  "config \<Rightarrow> pystr \<Rightarrow> pystr option \<Rightarrow> int option \<Rightarrow> (py_error + pystr list) option" where
  "chunk_text cfg text strategy max_length =
     (let effective_max = effective_max cfg max_length;
          cleaned = strip text
      in if cleaned = [] then Some (Inr [])
         else
           let normalized_strategy =
                 py_lower (case strategy of
                             None \<Rightarrow> str ''sentence''
                           | Some s \<Rightarrow> if s = [] then str ''sentence'' else s)
           in if normalized_strategy = str ''fixed'' then
                (case py_range (length cleaned) effective_max of
                   Inl e \<Rightarrow> Some (Inl e)
                 | Inr starts \<Rightarrow>
                     Some (Inr (map strip
                       (filter (\<lambda>chunk. strip chunk \<noteq> [])
                          (map (\<lambda>i. slice_between (int i) (int i + effective_max) cleaned)
                             starts)))))
              else if normalized_strategy = str ''paragraph'' then
                map_option Inr (chunk_by_paragraphs cleaned effective_max)
              else if normalized_strategy = str ''word'' then
                map_option Inr (chunk_by_words cleaned effective_max)
              else map_option Inr (chunk_hierarchical cleaned effective_max))"

section \<open>split\_text\_for\_long\_generation\<close>

text \<open>\<^verbatim>\<open>LongTextChunk\<close>; its field \<^verbatim>\<open>text\<close> is \<open>text_body\<close> here.\<close>

record long_text_chunk =
  index :: nat
  text_body :: pystr
  text_preview :: pystr
  character_count :: nat

definition make_long_text_chunk :: "nat \<Rightarrow> pystr \<Rightarrow> long_text_chunk" where
  "make_long_text_chunk i chunk_body =
     \<lparr>index = i, text_body = chunk_body,
      text_preview = take 50 chunk_body @ (if length chunk_body > 50 then str ''...'' else []),
      character_count = length chunk_body\<rparr>"

definition split_text_for_long_generation ::
  "config \<Rightarrow> pystr \<Rightarrow> int option \<Rightarrow> pystr option
     \<Rightarrow> (py_error + long_text_chunk list) option" where
  "split_text_for_long_generation cfg txt max_chunk_size strategy =
     (let max_chunk_size = (case max_chunk_size of
                              None \<Rightarrow> LONG_TEXT_CHUNK_SIZE cfg
                            | Some m \<Rightarrow> if m \<le> 0 then LONG_TEXT_CHUNK_SIZE cfg else m);
          resolved_strategy = (case strategy of
                                 None \<Rightarrow> LONG_TEXT_CHUNKING_STRATEGY cfg
                               | Some s \<Rightarrow> if s = [] then LONG_TEXT_CHUNKING_STRATEGY cfg else s)
      in case chunk_text cfg txt (Some resolved_strategy) (Some max_chunk_size) of
           None \<Rightarrow> None
         | Some (Inl e) \<Rightarrow> Some (Inl e)
         | Some (Inr chunk_strings) \<Rightarrow>
             Some (Inr (map (\<lambda>(i, chunk_body). make_long_text_chunk i chunk_body)
                          (enumerate 0 chunk_strings))))"


section \<open>The strategies of split\_text\_for\_streaming\<close>

text \<open>
  The pattern \<^verbatim>\<open>(?<=[.!?])\s+\<close>: a match is a maximal run of whitespace whose first character
  follows one of \<^verbatim>\<open>.\<close>, \<^verbatim>\<open>!\<close>, \<^verbatim>\<open>?\<close>. \<open>cur\<close> is the piece read since the last match, so the
  character before the current one is the last of \<open>cur\<close> (when \<open>cur\<close> is empty it is either
  missing or the whitespace that ended the last match).
\<close>

function split_sentences_from :: "pystr \<Rightarrow> pystr \<Rightarrow> pystr list" where
  "split_sentences_from cur [] = [cur]"
| "split_sentences_from cur (c # cs) =
     (if isspace c \<and> cur \<noteq> [] \<and> last cur \<in> {46, 33, 63}
      then cur # split_sentences_from [] (dropWhile isspace cs)
      else split_sentences_from (cur @ [c]) cs)"
  by pat_completeness auto
termination
  by (relation "measure (\<lambda>(cur, s). length s)")
    (auto simp: length_dropWhile_le less_Suc_eq_le)

definition re_split_sentences :: "pystr \<Rightarrow> pystr list" where
  "re_split_sentences text = split_sentences_from [] text"

text \<open>
  \<^verbatim>\<open>s.split(delimiter)\<close> for a non-empty delimiter (all delimiters of the source are
  non-empty constants).
\<close>

fun py_split_from :: "pystr \<Rightarrow> pystr \<Rightarrow> pystr \<Rightarrow> pystr list" where
  "py_split_from delimiter cur [] = [cur]"
| "py_split_from delimiter cur (c # cs) =
     (if prefix delimiter (c # cs)
      then cur # py_split_from delimiter [] (drop (length delimiter - 1) cs)
      else py_split_from delimiter (cur @ [c]) cs)"

definition py_split :: "pystr \<Rightarrow> pystr \<Rightarrow> pystr list" where
  "py_split s delimiter = py_split_from delimiter [] s"

definition split_by_fixed_size :: "pystr \<Rightarrow> int \<Rightarrow> py_error + pystr list" where
  "split_by_fixed_size text chunk_size =
     (case py_range (length text) chunk_size of
        Inl e \<Rightarrow> Inl e
      | Inr starts \<Rightarrow>
          Inr (filter (\<lambda>chunk. chunk \<noteq> [])
                 (map (\<lambda>i. strip (slice_between (int i) (int i + chunk_size) text)) starts)))"

fun split_by_words_loop ::
  "int \<Rightarrow> pystr list \<Rightarrow> pystr \<Rightarrow> pystr list \<Rightarrow> py_error + pystr list" where
  "split_by_words_loop max_length [] current_chunk chunks =
     Inr (if current_chunk \<noteq> [] then chunks @ [strip current_chunk] else chunks)"
| "split_by_words_loop max_length (word # words) current_chunk chunks =
     (if int (length current_chunk) + int (length word) + 1 \<le> max_length then
        split_by_words_loop max_length words
          (if current_chunk \<noteq> [] then current_chunk @ [32] @ word else word) chunks
      else
        let chunks1 = (if current_chunk \<noteq> [] then chunks @ [strip current_chunk] else chunks)
        in if int (length word) > max_length then
             (case py_range (length word) max_length of
                Inl e \<Rightarrow> Inl e
              | Inr starts \<Rightarrow>
                  split_by_words_loop max_length words []
                    (chunks1 @ map (\<lambda>i. slice_between (int i) (int i + max_length) word) starts))
           else split_by_words_loop max_length words word chunks1)"

definition split_by_words :: "pystr \<Rightarrow> int \<Rightarrow> py_error + pystr list" where
  "split_by_words text max_length =
     (case split_by_words_loop max_length (split_ws text) [] [] of
        Inl e \<Rightarrow> Inl e
      | Inr chunks \<Rightarrow> Inr (filter (\<lambda>chunk. strip chunk \<noteq> []) chunks))"

text \<open>
  \<^verbatim>\<open>_split_long_sentence\<close>: the loop over the parts of one chunk, the loop over the chunks for
  one delimiter, the loop over the delimiters, and the final loop that splits by words.
\<close>

fun regroup_parts :: "int \<Rightarrow> pystr \<Rightarrow> pystr list \<Rightarrow> pystr \<Rightarrow> pystr list \<Rightarrow> pystr list" where
  "regroup_parts max_length delimiter [] current_part new_chunks =
     (if current_part \<noteq> [] then new_chunks @ [current_part] else new_chunks)"
| "regroup_parts max_length delimiter (part # parts) current_part new_chunks =
     (if int (length current_part) + int (length delimiter) + int (length part) \<le> max_length
      then regroup_parts max_length delimiter parts
             (current_part @ (if current_part \<noteq> [] then delimiter else []) @ part) new_chunks
      else regroup_parts max_length delimiter parts part
             (if current_part \<noteq> [] then new_chunks @ [current_part] else new_chunks))"

fun resplit_chunks :: "int \<Rightarrow> pystr \<Rightarrow> pystr list \<Rightarrow> pystr list \<Rightarrow> pystr list" where
  "resplit_chunks max_length delimiter [] new_chunks = new_chunks"
| "resplit_chunks max_length delimiter (chunk # chunks) new_chunks =
     resplit_chunks max_length delimiter chunks
       (if int (length chunk) \<le> max_length then new_chunks @ [chunk]
        else regroup_parts max_length delimiter (py_split chunk delimiter) [] new_chunks)"

definition long_sentence_delimiters :: "pystr list" where
  "long_sentence_delimiters =
     [str '', '', str ''; '', str '' - '', [32, 8212, 32], str '': '', str '' and '',
      str '' or '', str '' but '']"

fun split_remaining_by_words ::
  "int \<Rightarrow> pystr list \<Rightarrow> pystr list \<Rightarrow> py_error + pystr list" where
  "split_remaining_by_words max_length [] final_chunks = Inr final_chunks"
| "split_remaining_by_words max_length (chunk # chunks) final_chunks =
     (if int (length chunk) \<le> max_length
      then split_remaining_by_words max_length chunks (final_chunks @ [chunk])
      else case split_by_words chunk max_length of
             Inl e \<Rightarrow> Inl e
           | Inr word_chunks \<Rightarrow>
               split_remaining_by_words max_length chunks (final_chunks @ word_chunks))"

definition split_long_sentence :: "pystr \<Rightarrow> int \<Rightarrow> py_error + pystr list" where
  "split_long_sentence sentence max_length =
     (let chunks = fold (\<lambda>delimiter chunks. resplit_chunks max_length delimiter chunks [])
                     long_sentence_delimiters [sentence]
      in case split_remaining_by_words max_length chunks [] of
           Inl e \<Rightarrow> Inl e
         | Inr final_chunks \<Rightarrow>
             Inr (map strip (filter (\<lambda>chunk. strip chunk \<noteq> []) final_chunks)))"

fun split_by_sentences_loop ::
  "int \<Rightarrow> pystr list \<Rightarrow> pystr \<Rightarrow> pystr list \<Rightarrow> py_error + pystr list" where
  "split_by_sentences_loop max_length [] current_chunk chunks =
     Inr (if current_chunk \<noteq> [] then chunks @ [strip current_chunk] else chunks)"
| "split_by_sentences_loop max_length (s # sentences) current_chunk chunks =
     (let sentence = strip s
      in if sentence = [] then split_by_sentences_loop max_length sentences current_chunk chunks
         else if int (length current_chunk) + int (length sentence) + 1 \<le> max_length then
           split_by_sentences_loop max_length sentences
             (if current_chunk \<noteq> [] then current_chunk @ [32] @ sentence else sentence) chunks
         else
           let chunks1 =
                 (if current_chunk \<noteq> [] then chunks @ [strip current_chunk] else chunks)
           in if int (length sentence) > max_length then
                (case split_long_sentence sentence max_length of
                   Inl e \<Rightarrow> Inl e
                 | Inr sub_chunks \<Rightarrow>
                     split_by_sentences_loop max_length sentences [] (chunks1 @ sub_chunks))
              else split_by_sentences_loop max_length sentences sentence chunks1)"

definition split_by_sentences :: "pystr \<Rightarrow> int \<Rightarrow> py_error + pystr list" where
  "split_by_sentences text max_length =
     (case split_by_sentences_loop max_length (re_split_sentences (strip text)) [] [] of
        Inl e \<Rightarrow> Inl e
      | Inr chunks \<Rightarrow> Inr (filter (\<lambda>chunk. strip chunk \<noteq> []) chunks))"

fun split_by_paragraphs_loop ::
  "int \<Rightarrow> pystr list \<Rightarrow> pystr \<Rightarrow> pystr list \<Rightarrow> py_error + pystr list" where
  "split_by_paragraphs_loop max_length [] current_chunk chunks =
     Inr (if current_chunk \<noteq> [] then chunks @ [strip current_chunk] else chunks)"
| "split_by_paragraphs_loop max_length (p # paragraphs) current_chunk chunks =
     (let paragraph = strip p
      in if paragraph = [] then
           split_by_paragraphs_loop max_length paragraphs current_chunk chunks
         else if int (length current_chunk) + int (length paragraph) + 2 \<le> max_length then
           split_by_paragraphs_loop max_length paragraphs
             (if current_chunk \<noteq> [] then current_chunk @ [10, 10] @ paragraph else paragraph)
             chunks
         else
           let chunks1 =
                 (if current_chunk \<noteq> [] then chunks @ [strip current_chunk] else chunks)
           in if int (length paragraph) > max_length then
                (case split_by_sentences paragraph max_length of
                   Inl e \<Rightarrow> Inl e
                 | Inr sentence_chunks \<Rightarrow>
                     split_by_paragraphs_loop max_length paragraphs []
                       (chunks1 @ sentence_chunks))
              else split_by_paragraphs_loop max_length paragraphs paragraph chunks1)"

definition split_by_paragraphs :: "pystr \<Rightarrow> int \<Rightarrow> py_error + pystr list" where
  "split_by_paragraphs text max_length =
     (case split_by_paragraphs_loop max_length (re_split_paragraphs (strip text)) [] [] of
        Inl e \<Rightarrow> Inl e
      | Inr chunks \<Rightarrow> Inr (filter (\<lambda>chunk. strip chunk \<noteq> []) chunks))"

section \<open>split\_text\_for\_streaming\<close>

text \<open>\<^verbatim>\<open>x or d\<close> for an optional integer and for an optional string.\<close>

definition or_int :: "int option \<Rightarrow> int \<Rightarrow> int" where
  "or_int x d = (case x of None \<Rightarrow> d | Some v \<Rightarrow> if v = 0 then d else v)"

definition or_str :: "pystr option \<Rightarrow> pystr \<Rightarrow> pystr" where
  "or_str x d = (case x of None \<Rightarrow> d | Some v \<Rightarrow> if v = [] then d else v)"

definition split_text_for_streaming ::
  "pystr \<Rightarrow> int option \<Rightarrow> pystr option \<Rightarrow> pystr option \<Rightarrow> py_error + pystr list" where
  "split_text_for_streaming text chunk_size strategy quality =
     (let (chunk_size, strategy) =
            (if quality = None \<or> quality = Some [] then (chunk_size, strategy)
             else if quality = Some (str ''fast'')
               then (Some (or_int chunk_size 100), Some (or_str strategy (str ''word'')))
             else if quality = Some (str ''balanced'')
               then (Some (or_int chunk_size 200), Some (or_str strategy (str ''sentence'')))
             else if quality = Some (str ''high'')
               then (Some (or_int chunk_size 300), Some (or_str strategy (str ''paragraph'')))
             else (chunk_size, strategy));
          chunk_size = or_int chunk_size 200;
          strategy = or_str strategy (str ''sentence'')
      in if strategy = str ''paragraph'' then split_by_paragraphs text chunk_size
         else if strategy = str ''sentence'' then split_by_sentences text chunk_size
         else if strategy = str ''word'' then split_by_words text chunk_size
         else if strategy = str ''fixed'' then split_by_fixed_size text chunk_size
         else split_by_sentences text chunk_size)"

section \<open>Values used in examples and statements\<close>

text \<open>A configuration with which the concrete runs below are made.\<close>

definition example_config :: config where
  "example_config = \<lparr>LONG_TEXT_CHUNK_SIZE = 3000, MAX_TOTAL_LENGTH = 3000,
      LONG_TEXT_CHUNKING_STRATEGY = str ''sentence'', long_text_min_length = 1,
      long_text_max_length = 100000\<rparr>"

text \<open>
  The rows \<open>xs\<close> joined with the row \<open>gap\<close> between every two neighbours: what the
  stitched audio is compared with.
\<close>

fun with_gaps :: "'a list \<Rightarrow> 'a list list \<Rightarrow> 'a list" where
  "with_gaps gap [] = []"
| "with_gaps gap [x] = x"
| "with_gaps gap (x # y # ys) = x @ gap @ with_gaps gap (y # ys)"

text \<open>
  The content of a text: its characters that are not whitespace, in order. Chunks are compared
  with the text they come from by their content, since the splitters trim chunks and replace
  separators.
\<close>

definition content :: "pystr \<Rightarrow> pystr" where
  "content s = filter (\<lambda>c. \<not> isspace c) s"

text \<open>
  The consecutive windows of \<open>n\<close> elements of a list (the last one may be shorter): what the
  fixed strategy is compared with.
\<close>

function windows :: "nat \<Rightarrow> 'a list \<Rightarrow> 'a list list" where
  "windows n s = (if n = 0 \<or> s = [] then [] else take n s # windows n (drop n s))"
  by pat_completeness auto
termination
  by (relation "measure (\<lambda>(n, s). length s)") auto

declare windows.simps [simp del]

section \<open>Properties of estimate\_processing\_time\<close>

lemma div_round_up:
  assumes "0 < (d::int)"
  shows "(n + d - 1) div d = - ((- n) div d)"
proof -
  define q r where "q = n div d" and "r = n mod d"
  have n: "n = q * d + r" by (simp add: q_def r_def)
  have r: "0 \<le> r" "r < d" using assms by (simp_all add: r_def)
  have neg: "(- n) div d = (if r = 0 then - q else - q - 1)"
    using assms by (simp add: zdiv_zminus1_eq_if q_def r_def)
  have "(r + d - 1 + q * d) div d = q + (r + d - 1) div d"
    using assms by simp
  moreover have "r + d - 1 + q * d = n + d - 1" by (simp add: n)
  ultimately have pos: "(n + d - 1) div d = q + (r + d - 1) div d" by simp
  show ?thesis
  proof (cases "r = 0")
    case True
    then have "(r + d - 1) div d = 0" using assms by (simp add: div_pos_pos_trivial)
    with pos neg True show ?thesis by simp
  next
    case False
    have "(r - 1 + d) div d = 1 + (r - 1) div d" using assms by simp
    moreover have "(r - 1) div d = 0" using r False by (simp add: div_pos_pos_trivial)
    ultimately have "(r + d - 1) div d = 1" by (simp add: algebra_simps)
    with pos neg False show ?thesis by simp
  qed
qed

lemma ceiling_div_int:
  assumes "0 < (d::int)"
  shows "\<lceil>(of_int n :: rat) / of_int d\<rceil> = (n + d - 1) div d"
  using div_round_up [OF assms, of n] by (simp add: ceiling_divide_eq_div)

text \<open>
  Claim C5. For a text length \<open>\<ge> 0\<close>, a positive rate and a positive configured long-text
  chunk size, the estimate is \<open>floor (text_length / rate) + 5 + 2 * num_chunks + 10\<close>, where
  \<open>num_chunks\<close> is \<open>ceil (text_length / effective_chunk_size)\<close> raised to at least 1 and the
  effective chunk size is the argument when it is present and positive and the configured
  long-text chunk size otherwise.
\<close>

theorem estimate_processing_time_formula:
  assumes "0 \<le> text_length" and "0 < avg" and "0 < LONG_TEXT_CHUNK_SIZE cfg"
  shows "estimate_processing_time cfg text_length avg chunk_size =
           Inr (\<lfloor>of_int text_length / avg\<rfloor> + 5
                + 2 * max 1 \<lceil>(of_int text_length :: rat) /
                     of_int (case chunk_size of
                         None \<Rightarrow> LONG_TEXT_CHUNK_SIZE cfg
                       | Some c \<Rightarrow> if 0 < c then c else LONG_TEXT_CHUNK_SIZE cfg)\<rceil>
                + 10)
         \<and> 1 \<le> max 1 \<lceil>(of_int text_length :: rat) /
                     of_int (case chunk_size of
                         None \<Rightarrow> LONG_TEXT_CHUNK_SIZE cfg
                       | Some c \<Rightarrow> if 0 < c then c else LONG_TEXT_CHUNK_SIZE cfg)\<rceil>"
proof -
  define ecs where "ecs = (case chunk_size of
      None \<Rightarrow> LONG_TEXT_CHUNK_SIZE cfg
    | Some c \<Rightarrow> if 0 < c then c else LONG_TEXT_CHUNK_SIZE cfg)"
  have pos: "0 < ecs"
    using assms(3) by (simp add: ecs_def split: option.splits)
  define n where "n = max 1 ((text_length + ecs - 1) div ecs)"
  have base: "0 \<le> of_int text_length / avg"
    using assms(1,2) by simp
  have n1: "1 \<le> n" by (simp add: n_def)
  have trunc: "py_int (of_int text_length / avg + of_int (5 + n * 2 + 10))
      = \<lfloor>of_int text_length / avg\<rfloor> + 5 + 2 * n + 10"
  proof -
    have "0 \<le> of_int text_length / avg + of_int (5 + n * 2 + 10)"
      using base n1 by (intro add_nonneg_nonneg) simp_all
    then have "py_int (of_int text_length / avg + of_int (5 + n * 2 + 10))
        = \<lfloor>of_int text_length / avg + of_int (5 + n * 2 + 10)\<rfloor>"
      by (simp only: py_int_def if_True)
    also have "\<dots> = \<lfloor>of_int text_length / avg\<rfloor> + (5 + n * 2 + 10)"
      by (rule floor_add_int [symmetric])
    finally show ?thesis by simp
  qed
  have code: "estimate_processing_time cfg text_length avg chunk_size
      = Inr (py_int (of_int text_length / avg + of_int (5 + n * 2 + 10)))"
    using assms(2,3) pos
    by (auto simp: estimate_processing_time_def Let_def ecs_def n_def split: option.splits)
  have "\<lceil>(of_int text_length :: rat) / of_int ecs\<rceil> = (text_length + ecs - 1) div ecs"
    using pos by (rule ceiling_div_int)
  then have "max 1 \<lceil>(of_int text_length :: rat) / of_int ecs\<rceil> = n"
    by (simp add: n_def)
  with code trunc n1 show ?thesis
    unfolding ecs_def by simp
qed

theorem estimate_processing_time_formula_witness:
  "estimate_processing_time example_config 1000 25 (Some 200) = Inr 65"
  using estimate_processing_time_formula [of 1000 25 example_config "Some 200"]
  by (simp add: example_config_def)

section \<open>Properties of validate\_long\_text\_input\<close>

text \<open>
  Claim C3, as stated, fails: a text of ten equal words has exactly 10% distinct words, is of
  acceptable length, and is accepted.
\<close>

theorem validate_exactly_ten_percent_accepted:
  "validate_long_text_input example_config (str ''a a a a a a a a a a'') = (True, [])
   \<and> 10 * length (remdups (split_ws (str ''a a a a a a a a a a'')))
       = length (split_ws (str ''a a a a a a a a a a''))"
  by (simp add: validate_long_text_input_def example_config_def str_def strip_def isspace_def
      split_ws_def)

text \<open>
  Claim C3, amended. A text that is not empty after trimming and whose trimmed length is within
  the configured bounds is rejected with the repetition message exactly when its distinct
  words are strictly fewer than 10% of its words; otherwise (in particular at exactly 10%) it
  is accepted with the empty message.
\<close>

theorem validate_repetition_threshold:
  assumes "strip text \<noteq> []"
    and "long_text_min_length cfg \<le> int (length (strip text))"
    and "int (length (strip text)) \<le> long_text_max_length cfg"
  shows "validate_long_text_input cfg text =
           (if 10 * card (set (split_ws text)) < length (split_ws text)
            then (False, str ''Text appears to be excessively repetitive'')
            else (True, []))"
proof -
  have "text \<noteq> []" using assms(1) by (auto simp: strip_def)
  with assms show ?thesis
    by (simp add: validate_long_text_input_def Let_def length_remdups_card_conv)
qed

theorem validate_repetition_threshold_witness:
  "validate_long_text_input example_config (str ''a a a a a a a a a a a a a a a a a a a a'')
     = (False, str ''Text appears to be excessively repetitive'')"
  using validate_repetition_threshold [of "str ''a a a a a a a a a a a a a a a a a a a a''" example_config]
  by (simp add: example_config_def str_def strip_def isspace_def split_ws_def)

section \<open>Properties of concatenate\_audio\_chunks\<close>

lemma with_gaps_Cons: "with_gaps gap (x # xs) = x @ concat (map (\<lambda>r. gap @ r) xs)"
  by (induction xs arbitrary: x) simp_all

lemma length_with_gaps:
  "xs \<noteq> [] \<Longrightarrow> length (with_gaps gap xs) = sum_list (map length xs) + (length xs - 1) * length gap"
  by (induction gap xs rule: with_gaps.induct) (simp_all add: algebra_simps)

lemma torch_cat_rows: "torch_cat_dim1 [[a], [b], [c]] = Inr [a @ b @ c]"
  by (simp add: torch_cat_dim1_def)

lemma concatenate_loop_rows:
  "concatenate_loop [sil] [acc] (map (\<lambda>r. [r]) rows)
     = Inr [acc @ concat (map (\<lambda>r. sil @ r) rows)]"
  by (induction rows arbitrary: acc) (simp_all add: torch_cat_rows)

text \<open>
  Claim C9. A list of exactly one segment is returned as it is. For two or more one-channel
  segments and a sample rate \<open>\<ge> 0\<close> the result is the one-channel tensor of the segments'
  samples with \<open>sample_rate div 10\<close> zero samples between every two neighbours; its length
  is the sum of the segments' lengths plus one gap for each consecutive pair.
\<close>

theorem concatenate_audio_chunks_gaps:
  "concatenate_audio_chunks [c] sample_rate = Inr c
   \<and> (2 \<le> length rows \<and> 0 \<le> sample_rate \<longrightarrow>
        concatenate_audio_chunks (map (\<lambda>r. [r]) rows) sample_rate
          = Inr [with_gaps (replicate (nat (sample_rate div 10)) 0) rows]
        \<and> length (with_gaps (replicate (nat (sample_rate div 10)) (0::real)) rows)
          = sum_list (map length rows) + (length rows - 1) * nat (sample_rate div 10))"
proof (intro conjI impI)
  show "concatenate_audio_chunks [c] sample_rate = Inr c"
    by (simp add: concatenate_audio_chunks_def)
next
  assume h: "2 \<le> length rows \<and> 0 \<le> sample_rate"
  then obtain r1 r2 rs where rows: "rows = r1 # r2 # rs"
    by (cases rows; cases "tl rows") auto
  have trunc: "py_int (of_int sample_rate / 10) = sample_rate div 10"
  proof -
    have "\<lfloor>(of_int sample_rate :: rat) / of_int 10\<rfloor> = sample_rate div 10"
      by (rule floor_divide_of_int_eq)
    with h show ?thesis by (simp add: py_int_def)
  qed
  have nn: "\<not> sample_rate div 10 < 0" using h by (simp add: not_less pos_imp_zdiv_nonneg_iff)
  show "concatenate_audio_chunks (map (\<lambda>r. [r]) rows) sample_rate
          = Inr [with_gaps (replicate (nat (sample_rate div 10)) 0) rows]"
    using concatenate_loop_rows [of "replicate (nat (sample_rate div 10)) 0" r1 "r2 # rs"] nn
    by (simp add: rows concatenate_audio_chunks_def trunc torch_zeros_1_def with_gaps_Cons Let_def
        del: with_gaps.simps)
  show "length (with_gaps (replicate (nat (sample_rate div 10)) (0::real)) rows)
          = sum_list (map length rows) + (length rows - 1) * nat (sample_rate div 10)"
    using length_with_gaps [of rows "replicate (nat (sample_rate div 10)) (0::real)"] rows
    by simp
qed

theorem concatenate_audio_chunks_gaps_witness:
  "2 \<le> length [replicate 16000 (0.5::real), replicate 16000 0.25, replicate 16000 0.125]
   \<and> (0::int) \<le> 16000
   \<and> (\<exists>row. concatenate_audio_chunks
         [[replicate 16000 0.5], [replicate 16000 0.25], [replicate 16000 0.125]] 16000 = Inr [row]
        \<and> length row = 3 * 16000 + 2 * 1600)"
  using concatenate_audio_chunks_gaps
    [of "[]" 16000 "[replicate 16000 (0.5::real), replicate 16000 0.25, replicate 16000 0.125]"]
  by simp

section \<open>Trimming and content\<close>

lemma length_strip_le: "length (strip s) \<le> length s"
proof -
  have "length (strip s) \<le> length (dropWhile isspace s)"
    unfolding strip_def using length_dropWhile_le [of isspace "rev (dropWhile isspace s)"] by simp
  also have "\<dots> \<le> length s" by (rule length_dropWhile_le)
  finally show ?thesis .
qed

lemma content_append [simp]: "content (a @ b) = content a @ content b"
  by (simp add: content_def)

lemma content_Nil [simp]: "content [] = []"
  by (simp add: content_def)

lemma content_dropWhile: "content (dropWhile isspace s) = content s"
  by (induction s) (simp_all add: content_def)

lemma content_rev: "content (rev s) = rev (content s)"
  by (simp add: content_def rev_filter)

lemma content_strip [simp]: "content (strip s) = content s"
  by (simp add: strip_def content_rev content_dropWhile)

lemma strip_Nil [simp]: "strip [] = []"
  by (simp add: strip_def)

lemma strip_eq_Nil_iff: "strip s = [] \<longleftrightarrow> (\<forall>c \<in> set s. isspace c)"
proof -
  have "strip s = [] \<longleftrightarrow> dropWhile isspace (rev (dropWhile isspace s)) = []"
    by (simp add: strip_def)
  also have "\<dots> \<longleftrightarrow> (\<forall>c \<in> set (dropWhile isspace s). isspace c)"
    by (simp add: dropWhile_eq_Nil_conv)
  also have "\<dots> \<longleftrightarrow> (\<forall>c \<in> set s. isspace c)"
  proof
    assume a: "\<forall>c \<in> set (dropWhile isspace s). isspace c"
    have "dropWhile isspace s = []"
    proof (rule ccontr)
      assume "dropWhile isspace s \<noteq> []"
      then have "\<not> isspace (hd (dropWhile isspace s))" by (rule hd_dropWhile)
      moreover have "hd (dropWhile isspace s) \<in> set (dropWhile isspace s)"
        using \<open>dropWhile isspace s \<noteq> []\<close> by simp
      ultimately show False using a by blast
    qed
    then show "\<forall>c \<in> set s. isspace c" by (simp add: dropWhile_eq_Nil_conv)
  next
    assume "\<forall>c \<in> set s. isspace c"
    then show "\<forall>c \<in> set (dropWhile isspace s). isspace c"
      by (auto dest: set_dropWhileD)
  qed
  finally show ?thesis .
qed

lemma strip_stripped:
  assumes "s \<noteq> []" and "\<not> isspace (hd s)" and "\<not> isspace (last s)"
  shows "strip s = s"
proof -
  have 1: "dropWhile isspace s = s" using assms(1,2) by (cases s) simp_all
  have "rev s \<noteq> []" "\<not> isspace (hd (rev s))" using assms(1,3) by (simp_all add: hd_rev)
  then have "dropWhile isspace (rev s) = rev s" by (cases "rev s") simp_all
  with 1 show ?thesis by (simp add: strip_def)
qed

lemma strip_ends:
  assumes "strip s \<noteq> []"
  shows "\<not> isspace (hd (strip s))" and "\<not> isspace (last (strip s))"
proof -
  let ?d = "dropWhile isspace s"
  let ?e = "dropWhile isspace (rev ?d)"
  have e: "?e \<noteq> []" using assms by (simp add: strip_def)
  then show "\<not> isspace (last (strip s))"
    using hd_dropWhile [of isspace "rev ?d"] by (simp add: strip_def last_rev)
  have d: "?d \<noteq> []"
  proof
    assume "?d = []"
    then have "?e = []" by (simp only: rev.simps dropWhile.simps)
    with e show False by contradiction
  qed
  then have hd_d: "\<not> isspace (hd ?d)" by (rule hd_dropWhile)
  obtain x xs where dx: "?d = x # xs" using d by (cases ?d) auto
  have "rev ?d = takeWhile isspace (rev ?d) @ ?e" by simp
  then have "?d = rev ?e @ rev (takeWhile isspace (rev ?d))"
    by (metis rev_append rev_rev_ident)
  then have "hd ?d = hd (rev ?e)" using e by (metis hd_append2 rev_is_Nil_conv)
  with hd_d show "\<not> isspace (hd (strip s))" by (simp add: strip_def)
qed

lemma strip_idem [simp]: "strip (strip s) = strip s"
proof (cases "strip s = []")
  case True
  then show ?thesis by simp
next
  case False
  then show ?thesis using strip_ends [OF False] by (intro strip_stripped)
qed

lemma strip_take_nonempty:
  assumes "s \<noteq> []" and "\<not> isspace (hd s)" and "0 < n"
  shows "strip (take n s) \<noteq> []"
proof -
  have "hd s \<in> set (take n s)" using assms(1,3) by (cases s; cases n) auto
  with assms(2) show ?thesis by (auto simp: strip_eq_Nil_iff)
qed

section \<open>Slices\<close>

lemma slice_to_nonneg: "0 \<le> i \<Longrightarrow> slice_to i s = take (nat i) s"
  by (simp add: slice_to_def slice_index_def min_def)

lemma slice_from_nonneg: "0 \<le> i \<Longrightarrow> slice_from i s = drop (nat i) s"
  by (simp add: slice_from_def slice_index_def min_def)

lemma cut_at_0: "cut_at text b 0 = (strip (take b text), strip (drop b text))"
  by (simp add: cut_at_def slice_to_nonneg slice_from_nonneg)

section \<open>Every tier of the finder cuts at or before the limit\<close>

lemma last_paragraph_break_le:
  "last_paragraph_break ml ms best = Some b \<Longrightarrow> best = Some b \<or> int b \<le> ml"
  by (induction ms arbitrary: best) (auto simp: Let_def split: if_splits)

lemma scan_delimiter_le:
  "scan_delimiter tx d ml pos best = Some b \<Longrightarrow> best = Some b \<or> int b \<le> ml"
proof (induction tx d ml pos best rule: scan_delimiter.induct)
  case (1 tx d ml pos best)
  note unfold = scan_delimiter.simps [of tx d ml pos best]
  show ?case
  proof (cases "pos < length tx")
    case False
    with "1.prems" show ?thesis by (simp add: unfold)
  next
    case True
    show ?thesis
    proof (cases "py_find tx d pos")
      case None
      with True "1.prems" show ?thesis
        by (simp add: unfold)
    next
      case (Some found)
      show ?thesis
      proof (cases "int (found + length d) \<le> ml")
        case le: True
        with True Some "1.prems"
        have "scan_delimiter tx d ml (found + 1) (Some (found + length d)) = Some b"
          by (simp add: unfold)
        from "1.IH" [OF True Some refl le this] le show ?thesis by auto
      next
        case False
        with True Some "1.prems" show ?thesis
          by (simp add: unfold)
      qed
    qed
  qed
qed

lemma fold_scan_le:
  "fold (\<lambda>d best. scan_delimiter text d ml 0 best) ds best = Some b
     \<Longrightarrow> best = Some b \<or> int b \<le> ml"
proof (induction ds arbitrary: best)
  case Nil
  then show ?case by simp
next
  case (Cons d ds)
  from Cons.prems have "fold (\<lambda>d best. scan_delimiter text d ml 0 best) ds
      (scan_delimiter text d ml 0 best) = Some b" by simp
  from Cons.IH [OF this] show ?case using scan_delimiter_le by blast
qed

lemma scan_delimiters_le: "scan_delimiters text ds ml = Some b \<Longrightarrow> int b \<le> ml"
  unfolding scan_delimiters_def using fold_scan_le by blast

lemma try_split_at_paragraphs_cut:
  assumes "try_split_at_paragraphs tx ml ov = Some r"
  shows "\<exists>b. b \<noteq> 0 \<and> int b \<le> ml \<and> r = cut_at tx b ov"
proof -
  from assms obtain b where b: "last_paragraph_break ml (paragraph_matches 0 tx) None = Some b"
    "b \<noteq> 0" "r = cut_at tx b ov"
    by (auto simp: try_split_at_paragraphs_def Let_def split: if_splits option.splits)
  from last_paragraph_break_le [OF b(1)] have "int b \<le> ml" by simp
  with b show ?thesis by blast
qed

lemma try_split_at_sentences_cut:
  assumes "try_split_at_sentences tx ml ov = Some r"
  shows "\<exists>b. b \<noteq> 0 \<and> int b \<le> ml \<and> r = cut_at tx b ov"
proof -
  from assms obtain b where b: "scan_delimiters tx sentence_endings ml = Some b"
    "b \<noteq> 0" "r = cut_at tx b ov"
    by (auto simp: try_split_at_sentences_def split: if_splits option.splits)
  from scan_delimiters_le [OF b(1)] b show ?thesis by blast
qed

lemma try_split_at_clauses_cut:
  assumes "try_split_at_clauses tx ml ov = Some r"
  shows "\<exists>b. b \<noteq> 0 \<and> int b \<le> ml \<and> r = cut_at tx b ov"
proof -
  from assms obtain b where b: "scan_delimiters tx clause_delimiters ml = Some b"
    "b \<noteq> 0" "r = cut_at tx b ov"
    by (auto simp: try_split_at_clauses_def split: if_splits option.splits)
  from scan_delimiters_le [OF b(1)] b show ?thesis by blast
qed

lemma last_index_Some: "last_index c xs = Some p \<Longrightarrow> p < length xs \<and> xs ! p = c"
  by (induction xs arbitrary: p) (auto split: option.splits if_splits)

lemma last_index_None: "last_index c xs = None \<Longrightarrow> c \<notin> set xs"
  by (induction xs) (auto split: option.splits if_splits)

lemma split_at_words_cut:
  assumes "ml < int (length tx)" and "0 \<le> ml"
  shows "\<exists>p. int p \<le> ml \<and> split_at_words tx ml 0 = (strip (take p tx), strip (drop p tx))
            \<and> (p = 0 \<longrightarrow> ml = 0 \<or> hd tx = 32)"
proof (cases "py_rfind tx 32 ml")
  case None
  with assms have "split_at_words tx ml 0
      = (strip (take (nat ml) tx), strip (drop (nat ml) tx))"
    by (simp add: split_at_words_def slice_to_nonneg slice_from_nonneg)
  with assms(2) show ?thesis by (intro exI [of _ "nat ml"]) auto
next
  case (Some p)
  then have "last_index 32 (take (nat ml) tx) = Some p"
    using assms(2) by (simp add: py_rfind_def slice_to_nonneg)
  from last_index_Some [OF this] have p: "p < nat ml" "tx ! p = 32" using assms by auto
  have "split_at_words tx ml 0 = (strip (take p tx), strip (drop p tx))"
    using assms Some by (simp add: split_at_words_def slice_to_nonneg slice_from_nonneg)
  moreover have "p = 0 \<longrightarrow> hd tx = 32" using p assms by (cases tx) auto
  ultimately show ?thesis using p by (intro exI [of _ p]) auto
qed

lemma find_best_split_point_cut:
  assumes "ml < int (length tx)" and "0 \<le> ml"
  shows "\<exists>p. int p \<le> ml
            \<and> find_best_split_point tx ml 0 = (strip (take p tx), strip (drop p tx))
            \<and> (p = 0 \<longrightarrow> ml = 0 \<or> hd tx = 32)"
proof -
  have tier: "\<exists>p. int p \<le> ml \<and> r = (strip (take p tx), strip (drop p tx))
            \<and> (p = 0 \<longrightarrow> ml = 0 \<or> hd tx = 32)"
    if "\<exists>b. b \<noteq> 0 \<and> int b \<le> ml \<and> r = cut_at tx b 0" for r
    using that by (auto simp: cut_at_0)
  show ?thesis
  proof (cases "try_split_at_paragraphs tx ml 0")
    case (Some r)
    then have "find_best_split_point tx ml 0 = r"
      using assms(1) by (simp add: find_best_split_point_def)
    with tier [OF try_split_at_paragraphs_cut [OF Some]] show ?thesis by simp
  next
    case p: None
    show ?thesis
    proof (cases "try_split_at_sentences tx ml 0")
      case (Some r)
      then have "find_best_split_point tx ml 0 = r"
        using assms(1) p by (simp add: find_best_split_point_def)
      with tier [OF try_split_at_sentences_cut [OF Some]] show ?thesis by simp
    next
      case s: None
      show ?thesis
      proof (cases "try_split_at_clauses tx ml 0")
        case (Some r)
        then have "find_best_split_point tx ml 0 = r"
          using assms(1) p s by (simp add: find_best_split_point_def)
        with tier [OF try_split_at_clauses_cut [OF Some]] show ?thesis by simp
      next
        case None
        then have "find_best_split_point tx ml 0 = split_at_words tx ml 0"
          using assms(1) p s by (simp add: find_best_split_point_def)
        with split_at_words_cut [OF assms] show ?thesis by simp
      qed
    qed
  qed
qed

section \<open>The hierarchical strategy\<close>

lemma concat_content_filter:
  "concat (map content (filter (\<lambda>c. c \<noteq> []) cs)) = concat (map content cs)"
  by (induction cs) simp_all

lemma content_take_drop: "content (take n s) @ content (drop n s) = content s"
  by (metis append_take_drop_id content_append)

lemma hierarchical_loop_result:
  assumes "1 \<le> ml"
  shows "strip rem = rem \<Longrightarrow>
         \<exists>cs. hierarchical_loop ml rem acc = Some (acc @ cs)
            \<and> (\<forall>c \<in> set cs. int (length c) \<le> ml \<and> strip c = c)
            \<and> concat (map content cs) = content rem"
proof (induction rem arbitrary: acc rule: length_induct)
  case (1 rem)
  note IH = "1.IH" [rule_format]
  show ?case
  proof (cases "rem = []")
    case True
    then show ?thesis by (simp add: hierarchical_loop.simps)
  next
    case ne: False
    show ?thesis
    proof (cases "int (length rem) \<le> ml")
      case True
      with ne "1.prems" show ?thesis by (simp add: hierarchical_loop.simps)
    next
      case False
      then have long: "ml < int (length rem)" by simp
      from find_best_split_point_cut [OF long] assms obtain p where
        p: "int p \<le> ml"
        and fb: "find_best_split_point rem ml 0 = (strip (take p rem), strip (drop p rem))"
        by auto
      show ?thesis
      proof (cases "strip (take p rem) = []")
        case True
        let ?n = "nat ml"
        let ?c = "strip (take ?n rem)" and ?r = "strip (drop ?n rem)"
        have unfold: "hierarchical_loop ml rem acc = hierarchical_loop ml ?r (acc @ [?c])"
          using ne False fb True assms
          by (subst hierarchical_loop.simps) (simp add: slice_to_nonneg slice_from_nonneg)
        have "length ?r \<le> length (drop ?n rem)" by (rule length_strip_le)
        also have "\<dots> < length rem" using assms long by simp
        finally have less: "length ?r < length rem" .
        from IH [OF less, of "acc @ [?c]"] obtain cs where
          cs: "hierarchical_loop ml ?r (acc @ [?c]) = Some ((acc @ [?c]) @ cs)"
          "\<forall>c \<in> set cs. int (length c) \<le> ml \<and> strip c = c"
          "concat (map content cs) = content ?r"
          by auto
        have "length ?c \<le> length (take ?n rem)" by (rule length_strip_le)
        then have "length ?c \<le> ?n" by simp
        then have "int (length ?c) \<le> int ?n" by (simp only: of_nat_le_iff)
        then have "int (length ?c) \<le> ml" using assms by simp
        with cs unfold show ?thesis
          by (intro exI [of _ "?c # cs"]) (simp add: content_take_drop)
      next
        case nonempty: False
        let ?c = "strip (take p rem)" and ?r = "strip (drop p rem)"
        have p0: "0 < p" using nonempty by (cases p) simp_all
        have unfold: "hierarchical_loop ml rem acc = hierarchical_loop ml ?r (acc @ [?c])"
          using ne False fb nonempty by (subst hierarchical_loop.simps) simp
        have "length ?r \<le> length (drop p rem)" by (rule length_strip_le)
        also have "\<dots> < length rem" using p0 ne by simp
        finally have less: "length ?r < length rem" .
        from IH [OF less, of "acc @ [?c]"] obtain cs where
          cs: "hierarchical_loop ml ?r (acc @ [?c]) = Some ((acc @ [?c]) @ cs)"
          "\<forall>c \<in> set cs. int (length c) \<le> ml \<and> strip c = c"
          "concat (map content cs) = content ?r"
          by auto
        have "length ?c \<le> length (take p rem)" by (rule length_strip_le)
        then have "int (length ?c) \<le> ml" using p by simp
        with cs unfold show ?thesis
          by (intro exI [of _ "?c # cs"]) (simp add: content_take_drop)
      qed
    qed
  qed
qed

lemma chunk_hierarchical_result:
  assumes "1 \<le> ml"
  shows "\<exists>cs. chunk_hierarchical tx ml = Some cs
            \<and> (\<forall>c \<in> set cs. c \<noteq> [] \<and> int (length c) \<le> ml \<and> strip c = c)
            \<and> concat (map content cs) = content tx"
proof -
  from hierarchical_loop_result [OF assms, of "strip tx" "[]"] obtain cs where
    cs: "hierarchical_loop ml (strip tx) [] = Some cs"
    "\<forall>c \<in> set cs. int (length c) \<le> ml \<and> strip c = c"
    "concat (map content cs) = content tx"
    by auto
  then show ?thesis
    by (intro exI [of _ "filter (\<lambda>c. c \<noteq> []) cs"])
      (simp add: chunk_hierarchical_def concat_content_filter)
qed

section \<open>The paragraph and word strategies of chunk\_text\<close>

lemma content_all_space: "\<forall>c \<in> set s. isspace c \<Longrightarrow> content s = []"
  by (simp add: content_def)

lemma strip_Nil_content: "strip s = [] \<Longrightarrow> content s = []"
  by (simp add: strip_eq_Nil_iff content_all_space)

lemma concat_content_strip_filter:
  "concat (map content (map strip (filter (\<lambda>c. strip c \<noteq> []) cs))) = concat (map content cs)"
  by (induction cs) (simp_all add: strip_Nil_content)

lemma last_index_lt: "last_index c xs = Some k \<Longrightarrow> k < length xs"
  by (simp add: last_index_Some)

lemma paragraph_break_space:
  assumes "paragraph_break (c # cs) = Some k"
  shows "isspace c" and "\<forall>x \<in> set (take (Suc k) cs). isspace x"
proof -
  from assms have c: "c = 10" and k: "last_index 10 (takeWhile isspace cs) = Some k"
    by (auto simp: paragraph_break_def split: if_splits)
  show "isspace c" by (simp add: c isspace_def)
  from last_index_lt [OF k] have "Suc k \<le> length (takeWhile isspace cs)" by simp
  then have "take (Suc k) (takeWhile isspace cs @ dropWhile isspace cs)
      = take (Suc k) (takeWhile isspace cs)"
    by (simp only: take_append) simp
  then have "take (Suc k) cs = take (Suc k) (takeWhile isspace cs)" by simp
  then show "\<forall>x \<in> set (take (Suc k) cs). isspace x"
    by (auto dest: in_set_takeD set_takeWhileD)
qed

lemma content_split_paragraphs:
  "concat (map content (split_paragraphs_from cur s)) = content cur @ content s"
proof (induction cur s rule: split_paragraphs_from.induct)
  case (1 cur)
  then show ?case by simp
next
  case (2 cur c cs)
  show ?case
  proof (cases "paragraph_break (c # cs)")
    case None
    with 2 show ?thesis by (simp add: content_def)
  next
    case (Some k)
    from paragraph_break_space [OF Some]
    have sp: "content [c] = []" "content (take (Suc k) cs) = []"
      by (simp_all add: content_all_space)
    have "content (c # cs) = content [c] @ content (take (Suc k) cs) @ content (drop (Suc k) cs)"
      by (simp only: content_take_drop) (simp add: content_def)
    then have "content (c # cs) = content (drop (Suc k) cs)" by (simp only: sp) simp
    with 2 Some show ?thesis by simp
  qed
qed

lemma content_re_split_paragraphs:
  "concat (map content (re_split_paragraphs s)) = content s"
  by (simp add: re_split_paragraphs_def content_split_paragraphs)

lemma content_split_ws_from:
  "concat (map content (split_ws_from cur s)) = content cur @ content s"
  by (induction cur s rule: split_ws_from.induct) (simp_all add: content_def)

lemma content_split_ws: "concat (map content (split_ws s)) = content s"
  by (simp add: split_ws_def content_split_ws_from)

lemma content_join_space: "content (join [32] ws) = concat (map content ws)"
  by (induction "[32::nat]" ws rule: join.induct) (simp_all add: content_def isspace_def)

lemma chunk_by_paragraphs_loop_result:
  assumes "1 \<le> ml"
  shows "\<exists>cs. chunk_by_paragraphs_loop ml ps current chunks = Some (chunks @ cs)
          \<and> (\<forall>c \<in> set cs. c \<noteq> [] \<and> int (length c) \<le> ml \<and> strip c = c)
          \<and> concat (map content cs)
              = (case current of None \<Rightarrow> [] | Some cur \<Rightarrow> content cur) @ concat (map content ps)"
proof (induction ps arbitrary: current chunks)
  case Nil
  show ?case
  proof (cases current)
    case None
    then show ?thesis by simp
  next
    case (Some cur)
    from chunk_hierarchical_result [OF assms, of cur] obtain cs where
      "chunk_hierarchical cur ml = Some cs"
      "\<forall>c \<in> set cs. c \<noteq> [] \<and> int (length c) \<le> ml \<and> strip c = c"
      "concat (map content cs) = content cur" by blast
    with Some show ?thesis by (cases "cur = []") auto
  qed
next
  case (Cons p ps)
  show ?case
  proof (cases current)
    case None
    with Cons.IH [of "Some p" chunks] show ?thesis by simp
  next
    case (Some cur)
    show ?thesis
    proof (cases "int (length (cur @ [10, 10] @ p)) \<le> ml")
      case True
      have "content (cur @ [10, 10] @ p) = content cur @ content p"
        by (simp add: content_def isspace_def)
      with Cons.IH [of "Some (cur @ [10, 10] @ p)" chunks] Some True show ?thesis
        by (simp add: Let_def)
    next
      case False
      from chunk_hierarchical_result [OF assms, of cur] obtain cs where
        cs: "chunk_hierarchical cur ml = Some cs"
        "\<forall>c \<in> set cs. c \<noteq> [] \<and> int (length c) \<le> ml \<and> strip c = c"
        "concat (map content cs) = content cur" by blast
      from Cons.IH [of "Some p" "chunks @ cs"] obtain cs' where
        cs': "chunk_by_paragraphs_loop ml ps (Some p) (chunks @ cs) = Some ((chunks @ cs) @ cs')"
        "\<forall>c \<in> set cs'. c \<noteq> [] \<and> int (length c) \<le> ml \<and> strip c = c"
        "concat (map content cs') = content p @ concat (map content ps)" by auto
      from Some False cs cs' show ?thesis
        by (intro exI [of _ "cs @ cs'"]) (auto simp: Let_def)
    qed
  qed
qed

lemma chunk_by_paragraphs_result:
  assumes "1 \<le> ml"
  shows "\<exists>cs. chunk_by_paragraphs tx ml = Some cs
          \<and> (\<forall>c \<in> set cs. c \<noteq> [] \<and> int (length c) \<le> ml \<and> strip c = c)
          \<and> concat (map content cs) = content tx"
proof -
  let ?ps = "map strip (filter (\<lambda>segment. strip segment \<noteq> []) (re_split_paragraphs tx))"
  have ps: "concat (map content ?ps) = content tx"
    by (simp only: concat_content_strip_filter content_re_split_paragraphs)
  show ?thesis
  proof (cases "?ps = []")
    case True
    then have "chunk_by_paragraphs tx ml = chunk_hierarchical tx ml"
      by (simp add: chunk_by_paragraphs_def)
    with chunk_hierarchical_result [OF assms, of tx] show ?thesis by simp
  next
    case False
    then have "chunk_by_paragraphs tx ml = chunk_by_paragraphs_loop ml ?ps None []"
      by (simp add: chunk_by_paragraphs_def Let_def)
    with chunk_by_paragraphs_loop_result [OF assms, of ?ps None "[]"] ps show ?thesis
      by auto
  qed
qed

lemma chunk_by_words_loop_result:
  "\<exists>cs. chunk_by_words_loop ml ws cw cl chunks = chunks @ cs
      \<and> (\<forall>c \<in> set cs. c \<noteq> [] \<and> strip c = c)
      \<and> concat (map content cs) = concat (map content cw) @ concat (map content ws)"
proof (induction ws arbitrary: cw cl chunks)
  case Nil
  show ?case
    by (cases "strip (join [32] cw) = []")
      (auto simp: Let_def content_join_space dest: strip_Nil_content)
next
  case (Cons w ws)
  let ?add = "if cw = [] then int (length w) else int (length w) + 1"
  show ?case
  proof (cases "cw \<noteq> [] \<and> cl + ?add > ml")
    case True
    let ?chunk = "strip (join [32] cw)"
    let ?chunks = "if ?chunk \<noteq> [] then chunks @ [?chunk] else chunks"
    from Cons.IH [of "[w]" "int (length w)" ?chunks] obtain cs where
      cs: "chunk_by_words_loop ml ws [w] (int (length w)) ?chunks = ?chunks @ cs"
      "\<forall>c \<in> set cs. c \<noteq> [] \<and> strip c = c"
      "concat (map content cs) = content w @ concat (map content ws)" by auto
    have eq: "chunk_by_words_loop ml (w # ws) cw cl chunks
        = chunk_by_words_loop ml ws [w] (int (length w)) ?chunks"
      using True by (auto simp: Let_def)
    show ?thesis
    proof (cases "?chunk = []")
      case e: True
      then have "concat (map content cw) = []"
        using strip_Nil_content [of "join [32] cw"] by (simp add: content_join_space)
      with cs eq e show ?thesis by (intro exI [of _ cs]) simp
    next
      case ne: False
      have "content ?chunk = concat (map content cw)" by (simp add: content_join_space)
      with cs eq ne show ?thesis by (intro exI [of _ "?chunk # cs"]) simp
    qed
  next
    case False
    then have eq: "chunk_by_words_loop ml (w # ws) cw cl chunks
        = chunk_by_words_loop ml ws (cw @ [w]) (cl + ?add) chunks"
      by (auto simp: Let_def)
    from Cons.IH [of "cw @ [w]" "cl + ?add" chunks] eq show ?thesis by auto
  qed
qed

lemma refine_chunks_result:
  assumes "1 \<le> ml"
  shows "\<forall>c \<in> set chunks. c \<noteq> [] \<and> strip c = c \<Longrightarrow>
         \<exists>cs. refine_chunks ml chunks refined = Some (refined @ cs)
          \<and> (\<forall>c \<in> set cs. c \<noteq> [] \<and> int (length c) \<le> ml \<and> strip c = c)
          \<and> concat (map content cs) = concat (map content chunks)"
proof (induction chunks arbitrary: refined)
  case Nil
  then show ?case by simp
next
  case (Cons chunk chunks)
  show ?case
  proof (cases "int (length chunk) > ml")
    case True
    from chunk_hierarchical_result [OF assms, of chunk] obtain cs where
      cs: "chunk_hierarchical chunk ml = Some cs"
      "\<forall>c \<in> set cs. c \<noteq> [] \<and> int (length c) \<le> ml \<and> strip c = c"
      "concat (map content cs) = content chunk" by blast
    from Cons.IH [of "refined @ cs"] Cons.prems obtain cs' where
      cs': "refine_chunks ml chunks (refined @ cs) = Some ((refined @ cs) @ cs')"
      "\<forall>c \<in> set cs'. c \<noteq> [] \<and> int (length c) \<le> ml \<and> strip c = c"
      "concat (map content cs') = concat (map content chunks)" by auto
    from True cs cs' show ?thesis by (intro exI [of _ "cs @ cs'"]) auto
  next
    case False
    from Cons.IH [of "refined @ [chunk]"] Cons.prems obtain cs' where
      cs': "refine_chunks ml chunks (refined @ [chunk]) = Some ((refined @ [chunk]) @ cs')"
      "\<forall>c \<in> set cs'. c \<noteq> [] \<and> int (length c) \<le> ml \<and> strip c = c"
      "concat (map content cs') = concat (map content chunks)" by auto
    from False cs' Cons.prems show ?thesis by (intro exI [of _ "chunk # cs'"]) auto
  qed
qed

lemma chunk_by_words_result:
  assumes "1 \<le> ml"
  shows "\<exists>cs. chunk_by_words tx ml = Some cs
          \<and> (\<forall>c \<in> set cs. c \<noteq> [] \<and> int (length c) \<le> ml \<and> strip c = c)
          \<and> concat (map content cs) = content tx"
proof (cases "split_ws tx = []")
  case True
  then have "content tx = []" using content_split_ws [of tx] by simp
  with True show ?thesis by (simp add: chunk_by_words_def)
next
  case False
  from chunk_by_words_loop_result [of ml "split_ws tx" "[]" 0 "[]"] obtain cs where
    cs: "chunk_by_words_loop ml (split_ws tx) [] 0 [] = cs"
    "\<forall>c \<in> set cs. c \<noteq> [] \<and> strip c = c"
    "concat (map content cs) = content tx" by (auto simp: content_split_ws)
  from refine_chunks_result [OF assms cs(2), of "[]"] cs False show ?thesis
    by (auto simp: chunk_by_words_def Let_def)
qed

section \<open>Termination of the hierarchical strategy and the boundary tiers\<close>

lemma last_index_None_iff: "last_index c xs = None \<longleftrightarrow> c \<notin> set xs"
  by (induction xs) (auto split: option.splits)

lemma find_best_split_point_progress:
  assumes "1 \<le> ml" and "strip rem = rem" and "ml < int (length rem)"
  shows "fst (find_best_split_point rem ml 0) \<noteq> []"
    and "length (snd (find_best_split_point rem ml 0)) < length rem"
proof -
  from find_best_split_point_cut [OF assms(3)] assms(1) obtain p where
    p: "int p \<le> ml"
    "find_best_split_point rem ml 0 = (strip (take p rem), strip (drop p rem))"
    "p = 0 \<longrightarrow> hd rem = 32" by auto
  have ne: "rem \<noteq> []" using assms(1,3) by auto
  then have "strip rem \<noteq> []" using assms(2) by simp
  from strip_ends(1) [OF this] have hd: "\<not> isspace (hd rem)" using assms(2) by simp
  then have p0: "0 < p" using p(3) by (auto simp: isspace_def)
  show "fst (find_best_split_point rem ml 0) \<noteq> []"
    using strip_take_nonempty [OF ne hd p0] by (simp add: p(2))
  have "length (strip (drop p rem)) \<le> length (drop p rem)" by (rule length_strip_le)
  also have "\<dots> < length rem" using p0 ne by simp
  finally show "length (snd (find_best_split_point rem ml 0)) < length rem"
    by (simp add: p(2))
qed

lemma find_best_split_point_hard_cut:
  assumes "0 \<le> ml" and "ml < int (length rem)"
    and "try_split_at_paragraphs rem ml 0 = None"
    and "try_split_at_sentences rem ml 0 = None"
    and "try_split_at_clauses rem ml 0 = None"
    and "32 \<notin> set (take (nat ml) rem)"
  shows "find_best_split_point rem ml 0 = (strip (take (nat ml) rem), strip (drop (nat ml) rem))"
proof -
  have "py_rfind rem 32 ml = None"
    using assms(1,6) by (simp add: py_rfind_def slice_to_nonneg last_index_None_iff)
  with assms show ?thesis
    by (simp add: find_best_split_point_def split_at_words_def slice_to_nonneg
        slice_from_nonneg)
qed

text \<open>
  Claim C8. For every text and every \<open>max_length \<ge> 1\<close> the hierarchical strategy returns.
  Whenever the remaining text of its loop (which is trimmed) is longer than \<open>max_length\<close>,
  the split-point finder returns a non-empty head and a remainder that is strictly shorter;
  and when no boundary tier succeeds and there is no space before \<open>max_length\<close>, the cut is
  at exactly \<open>max_length\<close> characters.
\<close>

theorem chunk_hierarchical_terminates:
  assumes "1 \<le> max_length"
  shows "(\<exists>chunks. chunk_hierarchical tx max_length = Some chunks)
    \<and> (strip remaining_text = remaining_text \<and> max_length < int (length remaining_text) \<longrightarrow>
         fst (find_best_split_point remaining_text max_length 0) \<noteq> []
         \<and> length (snd (find_best_split_point remaining_text max_length 0))
             < length remaining_text)
    \<and> (max_length < int (length remaining_text)
         \<and> try_split_at_paragraphs remaining_text max_length 0 = None
         \<and> try_split_at_sentences remaining_text max_length 0 = None
         \<and> try_split_at_clauses remaining_text max_length 0 = None
         \<and> 32 \<notin> set (take (nat max_length) remaining_text) \<longrightarrow>
         find_best_split_point remaining_text max_length 0
           = (strip (take (nat max_length) remaining_text),
              strip (drop (nat max_length) remaining_text)))"
proof (intro conjI impI)
  show "\<exists>chunks. chunk_hierarchical tx max_length = Some chunks"
    using chunk_hierarchical_result [OF assms, of tx] by blast
next
  assume "strip remaining_text = remaining_text \<and> max_length < int (length remaining_text)"
  then show "fst (find_best_split_point remaining_text max_length 0) \<noteq> []"
    and "length (snd (find_best_split_point remaining_text max_length 0))
             < length remaining_text"
    using find_best_split_point_progress [OF assms] by blast+
next
  assume "max_length < int (length remaining_text)
         \<and> try_split_at_paragraphs remaining_text max_length 0 = None
         \<and> try_split_at_sentences remaining_text max_length 0 = None
         \<and> try_split_at_clauses remaining_text max_length 0 = None
         \<and> 32 \<notin> set (take (nat max_length) remaining_text)"
  then show "find_best_split_point remaining_text max_length 0
           = (strip (take (nat max_length) remaining_text),
              strip (drop (nat max_length) remaining_text))"
    using find_best_split_point_hard_cut [of max_length remaining_text] assms by simp
qed

text \<open>The equations that evaluate the finder on a concrete text.\<close>

lemmas eval_text =
  str_def strip_def isspace_def slice_to_def slice_from_def slice_index_def cut_at_def

lemmas eval_finder =
  find_best_split_point_def try_split_at_paragraphs_def paragraph_break_def
  try_split_at_sentences_def try_split_at_clauses_def scan_delimiters_def sentence_endings_def
  clause_delimiters_def scan_delimiter.simps py_find_def split_at_words_def py_rfind_def Let_def

lemma tiers_none_example:
  "try_split_at_paragraphs (str ''abcdefghij'') 4 0 = None"
  "try_split_at_sentences (str ''abcdefghij'') 4 0 = None"
  "try_split_at_clauses (str ''abcdefghij'') 4 0 = None"
  by (simp_all add: eval_text eval_finder)

theorem chunk_hierarchical_terminates_witness:
  "(1::int) \<le> 4
   \<and> (\<exists>chunks. chunk_hierarchical (str ''abcdefghij'') 4 = Some chunks)
   \<and> fst (find_best_split_point (str ''abcdefghij'') 4 0) \<noteq> []
   \<and> length (snd (find_best_split_point (str ''abcdefghij'') 4 0)) < length (str ''abcdefghij'')
   \<and> find_best_split_point (str ''abcdefghij'') 4 0 = (str ''abcd'', str ''efghij'')"
  using chunk_hierarchical_terminates [of 4 "str ''abcdefghij''" "str ''abcdefghij''"]
  by (simp add: tiers_none_example) (simp add: eval_text)

text \<open>
  Claim C2 fails on the code. In the text below the sentence boundary after \<open>''. ''\<close> ends at
  20, within \<open>max_length = 20\<close>, and is the rightmost one; the tier returns the boundary after
  \<open>''! ''\<close> at 10, because \<open>''! ''\<close> is scanned after \<open>''. ''\<close> and overwrites it.
\<close>

theorem sentence_tier_keeps_last_scanned_variant:
  "try_split_at_sentences (str ''Good day! Hi there. The rest of the text'') 20 0
     = Some (str ''Good day!'', str ''Hi there. The rest of the text'')
   \<and> py_find (str ''Good day! Hi there. The rest of the text'') (str ''. '') 0 = Some 18
   \<and> find_best_split_point (str ''Good day! Hi there. The rest of the text'') 20 0
     = (str ''Good day!'', str ''Hi there. The rest of the text'')"
  by (simp add: eval_text eval_finder)

text \<open>The clause tier does the same: \<open>''; ''\<close> is scanned after \<open>'', ''\<close>.\<close>

lemma clause_tier_keeps_last_scanned_variant:
  "try_split_at_clauses (str ''one two; three four, five six seven'') 21 0
     = Some (str ''one two;'', str ''three four, five six seven'')
   \<and> py_find (str ''one two; three four, five six seven'') (str '', '') 0 = Some 19"
  by (simp add: eval_text eval_finder)

end
